theory Spec2Isabelle
  imports Main "HOL-Library.Sublist" "HOL-Library.AList" "HOL-Library.Char_ord"
    "HOL-Library.List_Lexorder"
begin

section \<open>Autheliarr: synchronising Wizarr users into the Authelia users file\<close>

text \<open>
  A shallow embedding of \<^verbatim>\<open>src/main.py\<close>. Python strings are \<open>string\<close>; the
  YAML document with the objects it shares, the SQLite rows, the random source, the
  Argon2 primitive and the file system are explicit values, so that every method of
  \<^verbatim>\<open>AutheliarrSync\<close> is a function from its inputs and the world to its result
  and the new world.
\<close>

subsection \<open>Regular expressions of the two validators\<close>

text \<open>
  Both patterns of the source consist of anchors, single characters and bracket
  expressions under a counted repetition. \<open>re_from\<close> is a backtracking matcher for such
  patterns with the meaning Python's \<^verbatim>\<open>re\<close> module gives them without flags:
  \<^verbatim>\<open>^\<close> holds at position 0 only, and \<^verbatim>\<open>$\<close> holds at the end of the
  string and also just before a newline that is the last character of the string.
\<close>

datatype cset = Range char char | Single char

datatype atom = Cls "cset list" | Lit char

datatype piece = Bol | Eol | One atom | Rep atom nat "nat option"

fun in_cset :: "char \<Rightarrow> cset \<Rightarrow> bool" where
  "in_cset c (Range lo hi) = ((of_char lo :: nat) \<le> of_char c \<and> (of_char c :: nat) \<le> of_char hi)"
| "in_cset c (Single d) = (c = d)"

fun atom_ok :: "atom \<Rightarrow> char \<Rightarrow> bool" where
  "atom_ok (Cls items) c = list_ex (in_cset c) items"
| "atom_ok (Lit d) c = (c = d)"

definition newline :: char where
  "newline = CHR 0x0A"

definition at_eol :: "string \<Rightarrow> bool" where
  "at_eol rest = (rest = [] \<or> rest = [newline])"

text \<open>
  \<open>re_from ps i rest\<close>: the pieces \<open>ps\<close> match starting at position \<open>i\<close>, where \<open>rest\<close>
  is the input from that position on. A repetition is greedy: it tries the longest run
  first and gives characters back one at a time, down to its lower bound.
\<close>

fun re_from :: "piece list \<Rightarrow> nat \<Rightarrow> string \<Rightarrow> bool" where
  "re_from [] i rest = True"
| "re_from (Bol # ps) i rest = (i = 0 \<and> re_from ps i rest)"
| "re_from (Eol # ps) i rest = (at_eol rest \<and> re_from ps i rest)"
| "re_from (One a # ps) i rest =
     (case rest of [] \<Rightarrow> False | c # cs \<Rightarrow> atom_ok a c \<and> re_from ps (Suc i) cs)"
| "re_from (Rep a lo hi # ps) i rest =
     (let run = length (takeWhile (atom_ok a) rest);
          most = (case hi of None \<Rightarrow> run | Some h \<Rightarrow> min h run)
      in list_ex (\<lambda>k. re_from ps (i + k) (drop k rest)) (rev [lo ..< Suc most]))"

definition re_match :: "piece list \<Rightarrow> string \<Rightarrow> bool" where
  "re_match ps s = re_from ps 0 s"

definition lower :: cset where "lower = Range (CHR ''a'') (CHR ''z'')"
definition upper :: cset where "upper = Range (CHR ''A'') (CHR ''Z'')"
definition digit :: cset where "digit = Range (CHR ''0'') (CHR ''9'')"

text \<open>The bracket expressions of the two patterns.\<close>

definition username_chars :: atom where
  "username_chars =
     Cls [lower, upper, digit, Single (CHR ''.''), Single (CHR ''_''), Single (CHR ''-'')]"

definition local_chars :: atom where
  "local_chars =
     Cls [lower, upper, digit, Single (CHR ''.''), Single (CHR ''_''), Single (CHR ''%''),
          Single (CHR ''+''), Single (CHR ''-'')]"

definition domain_chars :: atom where
  "domain_chars = Cls [lower, upper, digit, Single (CHR ''.''), Single (CHR ''-'')]"

definition letters :: atom where
  "letters = Cls [lower, upper]"

definition username_pattern :: "piece list" where
  "username_pattern = [Bol, Rep username_chars 3 (Some 32), Eol]"

definition email_pattern :: "piece list" where
  "email_pattern =
     [Bol, Rep local_chars 1 None, One (Lit (CHR ''@'')),
      Rep domain_chars 1 None, One (Lit (CHR ''.'')), Rep letters 2 None, Eol]"

definition validate_email :: "string \<Rightarrow> bool" where
  "validate_email email = re_match email_pattern email"

definition validate_username :: "string \<Rightarrow> bool" where
  "validate_username username = re_match username_pattern username"

subsection \<open>Python values, SQLite values and exceptions\<close>

text \<open>
  What \<^verbatim>\<open>yaml.safe_load\<close> returns is a graph of objects: a scalar is a value, a
  list or a mapping is an object of the heap, held by reference, so that one object
  can stand at several places (a YAML alias) and a change of it shows at all of them.
  A mapping is an association list in insertion order, as a Python \<^verbatim>\<open>dict\<close>
  is; its keys are strings. An object is made at the end of the heap; a reference of
  a loaded document is to an object of that document. Floats, timestamps and binary
  scalars are left out; the program reads none of them.
\<close>

type_synonym addr = nat

datatype pyval =
    PNone
  | PBool bool
  | PInt int
  | PStr string
  | PRef addr

datatype pyobj =
    PList "pyval list"
  | PDict "(string \<times> pyval) list"

type_synonym heap = "pyobj list"

text \<open>A column value of a SQLite row as the \<^verbatim>\<open>sqlite3\<close> module returns it.\<close>

datatype sql_value = SqlNull | SqlInt int | SqlText string | SqlBlob string

datatype error = AttributeError | TypeError | KeyError | HashingError

text \<open>The object a value refers to, if it is a reference into the heap.\<close>

definition deref :: "heap \<Rightarrow> pyval \<Rightarrow> pyobj option" where
  "deref h v = (case v of PRef a \<Rightarrow> if a < length h then Some (h ! a) else None | _ \<Rightarrow> None)"

text \<open>A new list or mapping: the heap with the object, and the reference to it.\<close>

definition alloc :: "heap \<Rightarrow> pyobj \<Rightarrow> heap \<times> pyval" where
  "alloc h obj = (h @ [obj], PRef (length h))"

text \<open>The truth value Python gives a value in \<^verbatim>\<open>data if data else ...\<close>.\<close>

definition truthy :: "heap \<Rightarrow> pyval \<Rightarrow> bool" where
  "truthy h v =
     (case v of
        PNone \<Rightarrow> False
      | PBool b \<Rightarrow> b
      | PInt i \<Rightarrow> i \<noteq> 0
      | PStr s \<Rightarrow> s \<noteq> []
      | PRef a \<Rightarrow>
          (case deref h v of
             Some (PList xs) \<Rightarrow> xs \<noteq> []
           | Some (PDict kvs) \<Rightarrow> kvs \<noteq> []
           | None \<Rightarrow> False))"

text \<open>\<^verbatim>\<open>obj.get(key, default)\<close>: only a mapping has the method.\<close>

definition py_get :: "heap \<Rightarrow> pyval \<Rightarrow> string \<Rightarrow> pyval \<Rightarrow> error + pyval" where
  "py_get h obj key dflt =
     (case deref h obj of
        Some (PDict kvs) \<Rightarrow> Inr (case map_of kvs key of None \<Rightarrow> dflt | Some v \<Rightarrow> v)
      | _ \<Rightarrow> Inl AttributeError)"

text \<open>
  \<^verbatim>\<open>key in obj\<close> for a string \<open>key\<close>: a key of a mapping, an element of a list, a
  substring of a string; the other values are not iterable.
\<close>

definition py_contains :: "heap \<Rightarrow> string \<Rightarrow> pyval \<Rightarrow> error + bool" where
  "py_contains h key obj =
     (case obj of
        PStr s \<Rightarrow> Inr (sublist key s)
      | PRef a \<Rightarrow>
          (case deref h obj of
             Some (PDict kvs) \<Rightarrow> Inr (key \<in> fst ` set kvs)
           | Some (PList xs) \<Rightarrow> Inr (PStr key \<in> set xs)
           | None \<Rightarrow> Inl TypeError)
      | _ \<Rightarrow> Inl TypeError)"

text \<open>\<^verbatim>\<open>obj[key]\<close> for a string \<open>key\<close>.\<close>

definition py_getitem :: "heap \<Rightarrow> pyval \<Rightarrow> string \<Rightarrow> error + pyval" where
  "py_getitem h obj key =
     (case deref h obj of
        Some (PDict kvs) \<Rightarrow> (case map_of kvs key of None \<Rightarrow> Inl KeyError | Some v \<Rightarrow> Inr v)
      | _ \<Rightarrow> Inl TypeError)"

text \<open>
  \<^verbatim>\<open>obj[key] = v\<close> for a string \<open>key\<close>: the mapping object is changed where it
  is, so every place that holds it sees the change; a present key keeps its place, a
  new one goes last.
\<close>

definition py_setitem :: "heap \<Rightarrow> pyval \<Rightarrow> string \<Rightarrow> pyval \<Rightarrow> error + heap" where
  "py_setitem h obj key v =
     (case obj of
        PRef a \<Rightarrow>
          (case deref h obj of
             Some (PDict kvs) \<Rightarrow> Inr (h[a := PDict (AList.update key v kvs)])
           | _ \<Rightarrow> Inl TypeError)
      | _ \<Rightarrow> Inl TypeError)"

subsection \<open>Configuration and external collaborators\<close>

record config =
  default_group :: string
  dry_run :: bool
  restart_authelia :: bool

record argon2_params =
  memory_cost :: nat
  time_cost :: nat
  parallelism :: nat
  hash_len :: nat
  salt_len :: nat

text \<open>
  The operating system's random source is a stream of numbers, read at a position that
  the caller advances. The Argon2id primitive of the \<^verbatim>\<open>argon2\<close> package is a
  parameter: from the cost parameters, a salt and a password it gives the text of the
  parameters, the salt and the hash, or \<open>None\<close> where the library raises
  \<^verbatim>\<open>Argon2Error\<close>.
\<close>

record env =
  entropy :: "nat \<Rightarrow> nat"
  argon2id :: "argon2_params \<Rightarrow> nat list \<Rightarrow> string \<Rightarrow> string option"

subsection \<open>Credential generation\<close>

definition alphabet :: string where
  "alphabet = ''abcdefghijklmnopqrstuvwxyzABCDEFGHIJKLMNOPQRSTUVWXYZ'' @ ''0123456789'' @ ''!@#$%^&*''"

text \<open>
  \<^verbatim>\<open>secrets.choice(alphabet)\<close> picks the element at a random index below the
  length of the alphabet. The result is the password and the next position of the
  random source.
\<close>

definition generate_password :: "env \<Rightarrow> nat \<Rightarrow> int \<Rightarrow> string \<times> nat" where
  "generate_password e pos len =
     (let len' = (if len < 8 then 8 else len);
          n = nat len'
      in (map (\<lambda>i. alphabet ! (entropy e (pos + i) mod length alphabet)) [0 ..< n], pos + n))"

text \<open>
  Modelled from the spec: the value of \<^verbatim>\<open>PasswordHasher.hash\<close> (the
  \<^verbatim>\<open>argon2\<close> package is not among the sources) is a self-describing encoded
  string that holds the algorithm parameters, the salt and the hash; it begins with
  the name of the algorithm and its version.
\<close>

definition encoded_prefix :: string where
  "encoded_prefix = ''$argon2id$v=19$''"

text \<open>
  \<^verbatim>\<open>PasswordHasher(...).hash(password)\<close> with the parameters of the source: the
  library draws a salt of \<open>salt_len\<close> random bytes and calls the primitive; an
  \<^verbatim>\<open>Argon2Error\<close> is logged and raised again.
\<close>

definition hash_password :: "env \<Rightarrow> nat \<Rightarrow> string \<Rightarrow> error + (string \<times> nat)" where
  "hash_password e pos password =
     (let hasher = \<lparr>memory_cost = 65536, time_cost = 3, parallelism = 4, hash_len = 32, salt_len = 16\<rparr>;
          salt = map (\<lambda>i. entropy e (pos + i) mod 256) [0 ..< salt_len hasher]
      in case argon2id e hasher salt password of
           None \<Rightarrow> Inl HashingError
         | Some rest \<Rightarrow> Inr (encoded_prefix @ rest, pos + salt_len hasher))"

subsection \<open>Display name\<close>

text \<open>
  \<^verbatim>\<open>str.title()\<close>: a cased character is put in upper case when the character
  before it is not cased, and in lower case when it is. The cased characters here are
  the ASCII letters; a user name that passed validation has no other letters.
\<close>

definition is_lower :: "char \<Rightarrow> bool" where
  "is_lower c = in_cset c lower"

definition is_upper :: "char \<Rightarrow> bool" where
  "is_upper c = in_cset c upper"

definition to_upper :: "char \<Rightarrow> char" where
  "to_upper c = (if is_lower c then char_of (of_char c - (32::nat)) else c)"

definition to_lower :: "char \<Rightarrow> char" where
  "to_lower c = (if is_upper c then char_of (of_char c + (32::nat)) else c)"

fun title_from :: "bool \<Rightarrow> string \<Rightarrow> string" where
  "title_from previous_is_cased [] = []"
| "title_from previous_is_cased (c # cs) =
     (if previous_is_cased then to_lower c else to_upper c)
       # title_from (is_lower c \<or> is_upper c) cs"

definition title :: "string \<Rightarrow> string" where
  "title s = title_from False s"

subsection \<open>The reconciliation loop of \<^verbatim>\<open>sync_users\<close>\<close>

text \<open>One row of the query of \<^verbatim>\<open>get_wizarr_users\<close>.\<close>

record wizarr_user =
  username :: sql_value
  email :: sql_value

text \<open>
  The state the loop changes: the heap of objects, the two counters, and the position
  of the random source; \<open>authelia_users\<close> is the value of the variable of that name,
  which the loop does not assign.
\<close>

record sync_state =
  heap :: heap
  authelia_users :: pyval
  new_users :: int
  updated_users :: int
  rng_pos :: nat

text \<open>The mapping of a new account; \<open>groups\<close> is the reference to its list of groups.\<close>

definition new_record :: "string \<Rightarrow> string \<Rightarrow> string \<Rightarrow> pyval \<Rightarrow> pyobj" where
  "new_record uname password_hash mail groups =
     PDict [(''displayname'', PStr (title uname)),
            (''password'', PStr password_hash),
            (''email'', PStr mail),
            (''groups'', groups)]"

text \<open>
  The body of the loop for a row whose user name and email passed validation. An
  existing record is changed where it is; for a new user the list of groups and the
  record are made after the password is hashed.
\<close>

definition sync_valid_user :: "config \<Rightarrow> env \<Rightarrow> string \<Rightarrow> string \<Rightarrow> sync_state \<Rightarrow> error + sync_state" where
  "sync_valid_user cfg e uname mail st =
     (case py_contains (heap st) uname (authelia_users st) of
        Inl err \<Rightarrow> Inl err
      | Inr True \<Rightarrow>
          (case py_getitem (heap st) (authelia_users st) uname of
             Inl err \<Rightarrow> Inl err
           | Inr record \<Rightarrow>
               (case py_get (heap st) record ''email'' (PStr []) of
                  Inl err \<Rightarrow> Inl err
                | Inr current_email \<Rightarrow>
                    if current_email \<noteq> PStr mail then
                      (case py_setitem (heap st) record ''email'' (PStr mail) of
                         Inl err \<Rightarrow> Inl err
                       | Inr h' \<Rightarrow>
                           Inr (st\<lparr>heap := h', updated_users := updated_users st + 1\<rparr>))
                    else Inr st))
      | Inr False \<Rightarrow>
          (let (password, pos) = generate_password e (rng_pos st) 16
           in case hash_password e pos password of
                Inl err \<Rightarrow> Inl err
              | Inr (password_hash, pos') \<Rightarrow>
                  (let (h1, groups) = alloc (heap st) (PList [PStr (default_group cfg)]);
                       (h2, record) = alloc h1 (new_record uname password_hash mail groups)
                   in case py_setitem h2 (authelia_users st) uname record of
                        Inl err \<Rightarrow> Inl err
                      | Inr h3 \<Rightarrow>
                          Inr (st\<lparr>heap := h3,
                                  new_users := new_users st + 1,
                                  rng_pos := pos'\<rparr>))))"

text \<open>
  The body of the loop. \<^verbatim>\<open>re.match\<close> raises \<^verbatim>\<open>TypeError\<close> on a value
  that is not a string; a row that fails a validation is skipped.
\<close>

definition sync_user :: "config \<Rightarrow> env \<Rightarrow> wizarr_user \<Rightarrow> sync_state \<Rightarrow> error + sync_state" where
  "sync_user cfg e row st =
     (case username row of
        SqlText uname \<Rightarrow>
          if \<not> validate_username uname then Inr st
          else (case email row of
                  SqlText mail \<Rightarrow>
                    if \<not> validate_email mail then Inr st
                    else sync_valid_user cfg e uname mail st
                | _ \<Rightarrow> Inl TypeError)
      | _ \<Rightarrow> Inl TypeError)"

fun sync_loop :: "config \<Rightarrow> env \<Rightarrow> wizarr_user list \<Rightarrow> sync_state \<Rightarrow> error + sync_state" where
  "sync_loop cfg e [] st = Inr st"
| "sync_loop cfg e (row # rows) st =
     (case sync_user cfg e row st of
        Inl err \<Rightarrow> Inl err
      | Inr st' \<Rightarrow> sync_loop cfg e rows st')"

definition start :: "heap \<Rightarrow> pyval \<Rightarrow> sync_state" where
  "start h users =
     \<lparr>heap = h, authelia_users = users, new_users = 0, updated_users = 0, rng_pos = 0\<rparr>"

subsection \<open>Stores, the restart and one pass\<close>

text \<open>
  The Wizarr database: absent, failing on connect or query, or holding the rows of its
  \<^verbatim>\<open>user\<close> table. The Authelia users file: absent, failing on open, failing in
  \<^verbatim>\<open>yaml.safe_load\<close>, or holding a document, which is the heap of its objects
  and its root value. A write that fails leaves the file as it was. The world records
  each write of the file and each restart it was asked for.
\<close>

datatype db_state = DbMissing | DbUnreadable | DbRows "wizarr_user list"

datatype file_state = FileMissing | FileUnreadable | FileMalformed | FileData heap pyval

datatype event = WroteUsersFile heap pyval | RestartedContainer

record world =
  wizarr_db :: db_state
  authelia_file :: file_state
  file_writable :: bool
  docker_ok :: bool
  events :: "event list"

definition get_wizarr_users :: "world \<Rightarrow> wizarr_user list" where
  "get_wizarr_users w =
     (case wizarr_db w of
        DbMissing \<Rightarrow> []
      | DbUnreadable \<Rightarrow> []
      | DbRows rows \<Rightarrow> filter (\<lambda>row. email row \<noteq> SqlNull) rows)"

text \<open>
  The document \<^verbatim>\<open>{'users': {}}\<close>: two new mappings, which are all its objects
  (the objects of a document that was read and dropped are no part of it).
\<close>

definition empty_store :: "heap \<times> pyval" where
  "empty_store = (let (h1, users) = alloc [] (PDict []) in alloc h1 (PDict [(''users'', users)]))"

definition load_authelia_users :: "world \<Rightarrow> heap \<times> pyval" where
  "load_authelia_users w =
     (case authelia_file w of
        FileMissing \<Rightarrow> empty_store
      | FileUnreadable \<Rightarrow> empty_store
      | FileMalformed \<Rightarrow> empty_store
      | FileData h data \<Rightarrow> if truthy h data then (h, data) else empty_store)"

definition restart_authelia_container :: "config \<Rightarrow> world \<Rightarrow> bool \<times> world" where
  "restart_authelia_container cfg w =
     (if dry_run cfg then (True, w)
      else if \<not> restart_authelia cfg then (True, w)
      else (docker_ok w, w\<lparr>events := events w @ [RestartedContainer]\<rparr>))"

text \<open>
  \<^verbatim>\<open>yaml.dump\<close> writes the keys of every mapping in sorted order (it is called
  without \<^verbatim>\<open>sort_keys=False\<close>) and writes an object that stands at several places
  once, with an anchor, so that the document read back has the same objects with
  their keys sorted.
\<close>

definition sort_keys :: "pyobj \<Rightarrow> pyobj" where
  "sort_keys obj = (case obj of PDict kvs \<Rightarrow> PDict (sort_key fst kvs) | PList xs \<Rightarrow> PList xs)"

definition save_authelia_users :: "config \<Rightarrow> heap \<Rightarrow> pyval \<Rightarrow> world \<Rightarrow> world" where
  "save_authelia_users cfg h users_data w =
     (if dry_run cfg then w
      else if file_writable w then
        w\<lparr>authelia_file := FileData (map sort_keys h) users_data,
          events := events w @ [WroteUsersFile (map sort_keys h) users_data]\<rparr>
      else w)"

text \<open>
  One pass: the exception that leaves it, if any, and the world after it. The default
  of \<^verbatim>\<open>authelia_data.get('users', {})\<close> is a new mapping, made before the call.
  The value of \<open>restart_authelia_container\<close> only chooses between two log lines.
\<close>

definition sync_users :: "config \<Rightarrow> env \<Rightarrow> world \<Rightarrow> error option \<times> world" where
  "sync_users cfg e w =
     (let wizarr_users = get_wizarr_users w;
          (h, authelia_data) = load_authelia_users w;
          (h', dflt) = alloc h (PDict [])
      in case py_get h' authelia_data ''users'' dflt of
           Inl err \<Rightarrow> (Some err, w)
         | Inr users \<Rightarrow>
             if wizarr_users = [] then (None, w)
             else (case sync_loop cfg e wizarr_users (start h' users) of
                     Inl err \<Rightarrow> (Some err, w)
                   | Inr st \<Rightarrow>
                       if new_users st > 0 \<or> updated_users st > 0 then
                         (case py_setitem (heap st) authelia_data ''users'' (authelia_users st) of
                            Inl err \<Rightarrow> (Some err, w)
                          | Inr h'' \<Rightarrow>
                              (None, snd (restart_authelia_container cfg
                                            (save_authelia_users cfg h'' authelia_data w))))
                       else (None, w)))"

text \<open>
  The single run of \<^verbatim>\<open>main\<close> (interval 0): the exit status of the process and
  the world after it.
\<close>

definition main_once :: "config \<Rightarrow> env \<Rightarrow> world \<Rightarrow> nat \<times> world" where
  "main_once cfg e w =
     (case sync_users cfg e w of
        (None, w') \<Rightarrow> (0, w')
      | (Some err, w') \<Rightarrow> (1, w'))"

subsection \<open>Notions used in the statements\<close>

text \<open>
  The user name and email of a row that passes both validations of the loop; a row
  that the loop skips; the value the users mapping holds under a user name; and a
  state in which a user's record holds a given email.
\<close>

definition valid_entry :: "wizarr_user \<Rightarrow> (string \<times> string) option" where
  "valid_entry row =
     (case username row of
        SqlText u \<Rightarrow>
          (case email row of
             SqlText m \<Rightarrow> if validate_username u \<and> validate_email m then Some (u, m) else None
           | _ \<Rightarrow> None)
      | _ \<Rightarrow> None)"

definition skipped :: "wizarr_user \<Rightarrow> bool" where
  "skipped row =
     (case username row of
        SqlText u \<Rightarrow>
          \<not> validate_username u
          \<or> (case email row of SqlText m \<Rightarrow> \<not> validate_email m | _ \<Rightarrow> False)
      | _ \<Rightarrow> False)"

definition users_lookup :: "sync_state \<Rightarrow> string \<Rightarrow> pyval option" where
  "users_lookup st u =
     (case deref (heap st) (authelia_users st) of
        Some (PDict us) \<Rightarrow> map_of us u
      | _ \<Rightarrow> None)"

definition has_email :: "sync_state \<Rightarrow> string \<Rightarrow> string \<Rightarrow> bool" where
  "has_email st u m =
     (case users_lookup st u of
        Some record \<Rightarrow>
          (case deref (heap st) record of
             Some (PDict fs) \<Rightarrow> map_of fs ''email'' = Some (PStr m)
           | _ \<Rightarrow> False)
      | None \<Rightarrow> False)"

text \<open>
  A source list in which the rows that pass validation under one user name all carry
  the same email.
\<close>

definition consistent :: "wizarr_user list \<Rightarrow> bool" where
  "consistent rows \<longleftrightarrow>
     (\<forall>r\<in>set rows. \<forall>r'\<in>set rows. \<forall>u m m'.
        valid_entry r = Some (u, m) \<longrightarrow> valid_entry r' = Some (u, m') \<longrightarrow> m = m')"

text \<open>
  A target in which two valid rows that find the same value under their user names
  carry the same email: no record is shared between source users of different emails.
\<close>

definition unshared :: "wizarr_user list \<Rightarrow> sync_state \<Rightarrow> bool" where
  "unshared rows st \<longleftrightarrow>
     (\<forall>r\<in>set rows. \<forall>r'\<in>set rows. \<forall>u m u' m' x.
        valid_entry r = Some (u, m) \<longrightarrow> valid_entry r' = Some (u', m') \<longrightarrow>
        users_lookup st u = Some x \<longrightarrow> users_lookup st u' = Some x \<longrightarrow> m = m')"

text \<open>
  A target in which what stands under the user name of a valid row is a reference to
  an object of the heap other than the users mapping itself.
\<close>

definition separate :: "wizarr_user list \<Rightarrow> sync_state \<Rightarrow> bool" where
  "separate rows st \<longleftrightarrow>
     (\<forall>r\<in>set rows. \<forall>u m x.
        valid_entry r = Some (u, m) \<longrightarrow> users_lookup st u = Some x \<longrightarrow>
        (\<exists>a. x = PRef a \<and> a < length (heap st) \<and> x \<noteq> authelia_users st))"

text \<open>
  An object that the loop over the rows can change from a state: the users mapping,
  or the object that stands under the user name of a row that passes validation.
\<close>

definition may_change :: "wizarr_user list \<Rightarrow> sync_state \<Rightarrow> addr \<Rightarrow> bool" where
  "may_change rows st b \<longleftrightarrow>
     authelia_users st = PRef b
     \<or> (\<exists>row\<in>set rows. \<exists>u m. valid_entry row = Some (u, m) \<and> users_lookup st u = Some (PRef b))"

text \<open>
  A loop state in which every user is an account of its own: the users are a mapping
  with distinct keys, each of them bound to a mapping object of the heap other than
  the users mapping, and the creation counter is the number of users.
\<close>

definition created :: "sync_state \<Rightarrow> bool" where
  "created st \<longleftrightarrow>
     (\<exists>a us. authelia_users st = PRef a \<and> a < length (heap st) \<and> heap st ! a = PDict us
        \<and> distinct (map fst us) \<and> new_users st = int (length us)
        \<and> (\<forall>u x. (u, x) \<in> set us \<longrightarrow>
              (\<exists>r fs. x = PRef r \<and> r \<noteq> a \<and> r < length (heap st) \<and> heap st ! r = PDict fs)))"

subsection \<open>Concrete inputs\<close>

text \<open>
  Inputs on which the theorems below are run: the default configuration; a random
  source that always gives 0 with a stand-in for Argon2id that never fails; and a
  random source whose numbers change after the first account, with a stand-in that
  fails on every password but the first.
\<close>

definition example_config :: config where
  "example_config = \<lparr>default_group = ''plex_users'', dry_run = False, restart_authelia = True\<rparr>"

definition example_digest :: string where
  "example_digest = ''m=65536,t=3,p=4$c2FsdA$aGFzaA''"

definition example_env :: env where
  "example_env =
     \<lparr>entropy = (\<lambda>i. 0),
      argon2id = (\<lambda>params salt password. Some example_digest)\<rparr>"

definition failing_env :: env where
  "failing_env =
     \<lparr>entropy = (\<lambda>i. if i < 32 then 0 else 1),
      argon2id = (\<lambda>params salt password.
                    if password = ''aaaaaaaaaaaaaaaa'' then Some example_digest else None)\<rparr>"

definition alice :: wizarr_user where
  "alice = \<lparr>username = SqlText ''alice'', email = SqlText ''alice@example.com''\<rparr>"

definition carol :: wizarr_user where
  "carol = \<lparr>username = SqlText ''carol'', email = SqlText ''carol@example.com''\<rparr>"

definition bob_first :: wizarr_user where
  "bob_first = \<lparr>username = SqlText ''bob'', email = SqlText ''old@x.com''\<rparr>"

definition bob_second :: wizarr_user where
  "bob_second = \<lparr>username = SqlText ''bob'', email = SqlText ''new@x.com''\<rparr>"

definition bobby :: wizarr_user where
  "bobby = \<lparr>username = SqlText ''bobby'', email = SqlText ''bobby@x.com''\<rparr>"

text \<open>
  The record of a user bob, whose list of groups is the object 0 of the heaps below,
  and the same record without its email.
\<close>

definition bob_record :: "(string \<times> pyval) list" where
  "bob_record =
     [(''displayname'', PStr ''Bob''), (''password'', PStr ''$argon2id$old''),
      (''email'', PStr ''old@x.com''), (''groups'', PRef 0)]"

definition bob_without_email :: "(string \<times> pyval) list" where
  "bob_without_email =
     [(''displayname'', PStr ''Bob''), (''password'', PStr ''$argon2id$old''),
      (''groups'', PRef 0)]"

text \<open>
  Heaps of loaded documents: a users mapping (object 2) with the user bob (object 1);
  the same with a root mapping (object 3) that has a second key \<open>version\<close>; the same
  with a second key \<open>backup\<close> that holds bob's record, as a YAML alias gives it; and
  a users mapping in which the users bob and bobby are one record.
\<close>

definition bob_heap :: heap where
  "bob_heap = [PList [PStr ''admins''], PDict bob_record, PDict [(''bob'', PRef 1)]]"

definition versioned_heap :: heap where
  "versioned_heap = bob_heap @ [PDict [(''users'', PRef 2), (''version'', PInt 1)]]"

definition backup_heap :: heap where
  "backup_heap = bob_heap @ [PDict [(''users'', PRef 2), (''backup'', PRef 1)]]"

definition twin_heap :: heap where
  "twin_heap =
     [PList [PStr ''admins''], PDict bob_record, PDict [(''bob'', PRef 1), (''bobby'', PRef 1)]]"

definition example_world :: world where
  "example_world =
     \<lparr>wizarr_db = DbRows [alice], authelia_file = FileData versioned_heap (PRef 3),
      file_writable = True, docker_ok = True, events = []\<rparr>"

definition backup_world :: world where
  "backup_world =
     \<lparr>wizarr_db = DbRows [bob_second], authelia_file = FileData backup_heap (PRef 3),
      file_writable = True, docker_ok = True, events = []\<rparr>"

definition two_user_world :: world where
  "two_user_world =
     \<lparr>wizarr_db = DbRows [alice, carol], authelia_file = FileMissing,
      file_writable = True, docker_ok = True, events = []\<rparr>"

definition list_document_world :: world where
  "list_document_world =
     \<lparr>wizarr_db = DbMissing, authelia_file = FileData [PList [PStr ''x'']] (PRef 0),
      file_writable = True, docker_ok = True, events = []\<rparr>"

definition scalar_document_world :: world where
  "scalar_document_world =
     \<lparr>wizarr_db = DbRows [alice], authelia_file = FileData [] (PStr ''hello''),
      file_writable = True, docker_ok = True, events = []\<rparr>"

definition null_users_world :: world where
  "null_users_world =
     \<lparr>wizarr_db = DbRows [alice], authelia_file = FileData [PDict [(''users'', PNone)]] (PRef 0),
      file_writable = True, docker_ok = True, events = []\<rparr>"

section \<open>Properties\<close>

subsection \<open>What the two patterns accept\<close>

lemma takeWhile_length_ge:
  "k \<le> length (takeWhile P xs) \<longleftrightarrow> k \<le> length xs \<and> (\<forall>c\<in>set (take k xs). P c)"
proof (induction xs arbitrary: k)
  case Nil
  then show ?case by simp
next
  case (Cons x xs)
  show ?case
  proof (cases k)
    case 0
    then show ?thesis by simp
  next
    case (Suc j)
    then show ?thesis using Cons.IH [of j] by auto
  qed
qed


lemma list_ex_upt:
  "list_ex P [lo ..< Suc m] \<longleftrightarrow> (\<exists>k. lo \<le> k \<and> k \<le> m \<and> P k)"
  by (auto simp: list_ex_iff simp del: upt_Suc)

lemma list_ex_rev_upt:
  "list_ex P (rev [lo ..< Suc m]) \<longleftrightarrow> (\<exists>k. lo \<le> k \<and> k \<le> m \<and> P k)"
  by (simp add: list_ex_upt del: upt_Suc)

lemma re_from_Rep:
  "re_from (Rep a lo hi # ps) i rest \<longleftrightarrow>
     (\<exists>pre post. rest = pre @ post \<and> lo \<le> length pre
        \<and> (case hi of None \<Rightarrow> True | Some h \<Rightarrow> length pre \<le> h)
        \<and> (\<forall>c\<in>set pre. atom_ok a c) \<and> re_from ps (i + length pre) post)"
  (is "?L \<longleftrightarrow> ?R")
proof
  assume ?L
  then obtain k where k: "lo \<le> k" "k \<le> length (takeWhile (atom_ok a) rest)"
      "case hi of None \<Rightarrow> True | Some h \<Rightarrow> k \<le> h" "re_from ps (i + k) (drop k rest)"
    by (auto simp: list_ex_upt Let_def simp del: upt_Suc split: option.splits)
  from k(2) have len: "k \<le> length rest" and ok: "\<forall>c\<in>set (take k rest). atom_ok a c"
    by (simp_all add: takeWhile_length_ge)
  have "rest = take k rest @ drop k rest" by simp
  moreover have "length (take k rest) = k" using len by simp
  ultimately show ?R using k ok by (metis (no_types, lifting))
next
  assume ?R
  then obtain pre post where r: "rest = pre @ post" "lo \<le> length pre"
      "case hi of None \<Rightarrow> True | Some h \<Rightarrow> length pre \<le> h"
      "\<forall>c\<in>set pre. atom_ok a c" "re_from ps (i + length pre) post"
    by blast
  have "length pre \<le> length (takeWhile (atom_ok a) rest)"
    using r(1,4) by (simp add: takeWhile_length_ge)
  then show ?L using r
    by (auto simp: list_ex_upt Let_def simp del: upt_Suc split: option.splits
             intro!: exI [of _ "length pre"])
qed

lemma re_from_One:
  "re_from (One a # ps) i rest \<longleftrightarrow> (\<exists>c cs. rest = c # cs \<and> atom_ok a c \<and> re_from ps (Suc i) cs)"
  by (cases rest) auto

declare re_from.simps(4,5) [simp del]

lemma validate_username_iff:
  "validate_username s \<longleftrightarrow>
     (\<exists>t. (s = t \<or> s = t @ [newline]) \<and> 3 \<le> length t \<and> length t \<le> 32
        \<and> (\<forall>c\<in>set t. atom_ok username_chars c))"
  unfolding validate_username_def re_match_def username_pattern_def
  by (auto simp: re_from_Rep at_eol_def)


lemma validate_email_iff:
  "validate_email s \<longleftrightarrow>
     (\<exists>l d t. (s = l @ CHR ''@'' # d @ CHR ''.'' # t \<or> s = l @ CHR ''@'' # d @ CHR ''.'' # t @ [newline])
        \<and> l \<noteq> [] \<and> (\<forall>c\<in>set l. atom_ok local_chars c)
        \<and> d \<noteq> [] \<and> (\<forall>c\<in>set d. atom_ok domain_chars c)
        \<and> 2 \<le> length t \<and> (\<forall>c\<in>set t. atom_ok letters c))"
  (is "?L \<longleftrightarrow> ?R")
proof
  assume ?L
  then have "re_from [Rep local_chars 1 None, One (Lit (CHR ''@'')),
      Rep domain_chars 1 None, One (Lit (CHR ''.'')), Rep letters 2 None, Eol] 0 s"
    by (simp add: validate_email_def re_match_def email_pattern_def)
  then obtain l r1 where 1: "s = l @ r1" "1 \<le> length l" "\<forall>c\<in>set l. atom_ok local_chars c"
    and "re_from [One (Lit (CHR ''@'')),
      Rep domain_chars 1 None, One (Lit (CHR ''.'')), Rep letters 2 None, Eol] (0 + length l) r1"
    unfolding re_from_Rep by auto
  then obtain r2 where 2: "r1 = CHR ''@'' # r2"
    and "re_from [Rep domain_chars 1 None, One (Lit (CHR ''.'')), Rep letters 2 None, Eol]
           (Suc (0 + length l)) r2"
    unfolding re_from_One by auto
  then obtain d r3 where 3: "r2 = d @ r3" "1 \<le> length d" "\<forall>c\<in>set d. atom_ok domain_chars c"
    and "re_from [One (Lit (CHR ''.'')), Rep letters 2 None, Eol]
           (Suc (0 + length l) + length d) r3"
    unfolding re_from_Rep by auto
  then obtain r4 where 4: "r3 = CHR ''.'' # r4"
    and "re_from [Rep letters 2 None, Eol] (Suc (Suc (0 + length l) + length d)) r4"
    unfolding re_from_One by auto
  then obtain t r5 where 5: "r4 = t @ r5" "2 \<le> length t" "\<forall>c\<in>set t. atom_ok letters c"
    and "re_from [Eol] (Suc (Suc (0 + length l) + length d) + length t) r5"
    unfolding re_from_Rep by auto
  then have 6: "r5 = [] \<or> r5 = [newline]"
    by (simp add: at_eol_def)
  have "l \<noteq> []" "d \<noteq> []" using 1(2) 3(2) by auto
  have "s = l @ CHR ''@'' # d @ CHR ''.'' # t \<or> s = l @ CHR ''@'' # d @ CHR ''.'' # t @ [newline]"
    using 1(1) 2 3(1) 4 5(1) 6 by auto
  with \<open>l \<noteq> []\<close> \<open>d \<noteq> []\<close> 1(3) 3(3) 5(2,3) show ?R by blast
next
  assume ?R
  then obtain l d t where alt:
      "s = l @ CHR ''@'' # d @ CHR ''.'' # t \<or> s = l @ CHR ''@'' # d @ CHR ''.'' # t @ [newline]"
    and parts: "l \<noteq> []" "\<forall>c\<in>set l. atom_ok local_chars c"
      "d \<noteq> []" "\<forall>c\<in>set d. atom_ok domain_chars c"
      "2 \<le> length t" "\<forall>c\<in>set t. atom_ok letters c"
    by blast
  define r where "r = (if s = l @ CHR ''@'' # d @ CHR ''.'' # t then [] else [newline])"
  have r: "s = l @ CHR ''@'' # d @ CHR ''.'' # t @ r" "r = [] \<or> r = [newline]"
    using alt by (auto simp: r_def)
  have e: "re_from [Eol] k r" for k
    using r(2) by (auto simp: at_eol_def)
  have "re_from [Rep letters 2 None, Eol] k (t @ r)" for k
    unfolding re_from_Rep using parts(5,6) e by auto
  then have "re_from [One (Lit (CHR ''.'')), Rep letters 2 None, Eol] k (CHR ''.'' # t @ r)" for k
    unfolding re_from_One by auto
  then have "re_from [Rep domain_chars 1 None, One (Lit (CHR ''.'')), Rep letters 2 None, Eol] k
      (d @ CHR ''.'' # t @ r)" for k
    unfolding re_from_Rep using parts(3,4) by (auto simp: Suc_le_eq)
  then have "re_from [One (Lit (CHR ''@'')), Rep domain_chars 1 None, One (Lit (CHR ''.'')),
      Rep letters 2 None, Eol] k (CHR ''@'' # d @ CHR ''.'' # t @ r)" for k
    unfolding re_from_One by auto
  then have "re_from [Rep local_chars 1 None, One (Lit (CHR ''@'')), Rep domain_chars 1 None,
      One (Lit (CHR ''.'')), Rep letters 2 None, Eol] k (l @ CHR ''@'' # d @ CHR ''.'' # t @ r)" for k
    unfolding re_from_Rep using parts(1,2) by (auto simp: Suc_le_eq)
  then show ?L
    by (simp add: validate_email_def re_match_def email_pattern_def r(1))
qed

text \<open>
  Strings made of the user-name characters, three to thirty-two of them, are accepted,
  and an accepted string is such a string, possibly followed by one newline.
\<close>

lemma validate_username_accepts:
  "3 \<le> length s \<Longrightarrow> length s \<le> 32 \<Longrightarrow> \<forall>c\<in>set s. atom_ok username_chars c \<Longrightarrow> validate_username s"
  unfolding validate_username_iff by blast

lemma validate_username_rejects:
  "length s < 3 \<or> 33 < length s \<or> (\<exists>c\<in>set (butlast s). \<not> atom_ok username_chars c)
     \<or> (s \<noteq> [] \<and> last s \<noteq> newline \<and> \<not> atom_ok username_chars (last s))
     \<or> (length s = 33 \<and> last s \<noteq> newline)
     \<Longrightarrow> \<not> validate_username s"
  unfolding validate_username_iff by (auto simp: butlast_append dest: in_set_butlastD)

text \<open>
  C6: \<open>validate_username\<close> is to return false for every string with a character
  outside \<^verbatim>\<open>[A-Za-z0-9._-]\<close> or with a length outside 3 to 32. The newline is no
  such character, the string below of four characters ends in one, and the second
  string has 33 characters; the function accepts both, since \<^verbatim>\<open>$\<close> also holds
  before a final newline.
\<close>

theorem validate_username_trailing_newline:
  "validate_username (''abc'' @ [newline]) = True
   \<and> atom_ok username_chars newline = False
   \<and> validate_username (replicate 32 (CHR ''a'') @ [newline]) = True
   \<and> length (replicate 32 (CHR ''a'') @ [newline]) = 33"
  by code_simp

text \<open>
  Strings of the shape local, \<open>@\<close>, domain, dot, letters are accepted; a string
  without \<open>@\<close>, or without a dot after its first \<open>@\<close>, is rejected; and an accepted
  string that does not end in a newline ends in a dot and two or more letters.
\<close>

lemma at_not_local: "\<not> atom_ok local_chars (CHR ''@'')"
  by code_simp

lemma dot_not_letter: "\<not> atom_ok letters (CHR ''.'')"
  by code_simp

lemma validate_email_accepts:
  "l \<noteq> [] \<Longrightarrow> \<forall>c\<in>set l. atom_ok local_chars c \<Longrightarrow>
   d \<noteq> [] \<Longrightarrow> \<forall>c\<in>set d. atom_ok domain_chars c \<Longrightarrow>
   2 \<le> length t \<Longrightarrow> \<forall>c\<in>set t. atom_ok letters c \<Longrightarrow>
   validate_email (l @ CHR ''@'' # d @ CHR ''.'' # t)"
  unfolding validate_email_iff by blast

lemma validate_email_rejects_no_at:
  "CHR ''@'' \<notin> set s \<Longrightarrow> \<not> validate_email s"
  unfolding validate_email_iff by auto

lemma validate_email_rejects_no_domain_dot:
  assumes "CHR ''.'' \<notin> set (dropWhile (\<lambda>c. c \<noteq> CHR ''@'') s)"
  shows "\<not> validate_email s"
proof
  assume "validate_email s"
  then obtain l d t r where s: "s = l @ CHR ''@'' # d @ CHR ''.'' # t @ r"
      and l: "\<forall>c\<in>set l. atom_ok local_chars c"
    unfolding validate_email_iff by (metis append.right_neutral)
  have "\<forall>c\<in>set l. c \<noteq> CHR ''@''"
    using l at_not_local by auto
  then have "dropWhile (\<lambda>c. c \<noteq> CHR ''@'') s = CHR ''@'' # d @ CHR ''.'' # t @ r"
    unfolding s by (simp add: dropWhile_append3)
  then show False using assms by simp
qed

lemma validate_email_needs_tld:
  assumes "validate_email s" and "s = [] \<or> last s \<noteq> newline"
  shows "\<exists>p t. s = p @ CHR ''.'' # t \<and> 2 \<le> length t \<and> (\<forall>c\<in>set t. atom_ok letters c)"
proof -
  from assms(1) obtain l d t where
      alt: "s = l @ CHR ''@'' # d @ CHR ''.'' # t \<or> s = l @ CHR ''@'' # d @ CHR ''.'' # t @ [newline]"
      and t: "2 \<le> length t" "\<forall>c\<in>set t. atom_ok letters c"
    unfolding validate_email_iff by blast
  have "s \<noteq> l @ CHR ''@'' # d @ CHR ''.'' # t @ [newline]"
    using assms(2) by auto
  then have "s = (l @ CHR ''@'' # d) @ CHR ''.'' # t"
    using alt by simp
  then show ?thesis using t by blast
qed

text \<open>
  C7: \<open>validate_email\<close> is to return false for every string without a top-level
  label of two or more letters. In the string below the text after the last dot ends
  in a newline, which is no letter, and the function accepts the string.
\<close>

theorem validate_email_trailing_newline:
  "validate_email (''a@b.com'' @ [newline]) = True
   \<and> atom_ok letters newline = False
   \<and> validate_email ''a@b.com'' = True"
  by code_simp

subsection \<open>One step of the loop\<close>

lemma update_fresh: "k \<notin> fst ` set al \<Longrightarrow> AList.update k v al = al @ [(k, v)]"
  by (induction al) auto

lemma map_of_None_iff: "map_of al k = None \<longleftrightarrow> k \<notin> fst ` set al"
  by (simp add: map_of_eq_None_iff)

lemma map_of_update_other: "k \<noteq> k' \<Longrightarrow> map_of (AList.update k' v al) k = map_of al k"
  by (simp add: update_conv')

lemma map_of_update_same: "map_of (AList.update k v al) k = Some v"
  by (simp add: update_conv')

lemma map_of_snoc_other: "k \<noteq> k' \<Longrightarrow> map_of (al @ [(k', v)]) k = map_of al k"
  by (cases "map_of al k") (simp_all add: map_add_def)

lemma map_of_snoc_fresh: "k \<notin> fst ` set al \<Longrightarrow> map_of (al @ [(k, v)]) k = Some v"
proof -
  assume "k \<notin> fst ` set al"
  then have "map_of al k = None" by (simp add: map_of_None_iff)
  then show ?thesis by (simp add: map_add_def)
qed

lemma deref_Some_iff: "deref h v = Some obj \<longleftrightarrow> (\<exists>a. v = PRef a \<and> a < length h \<and> h ! a = obj)"
  by (cases v) (auto simp: deref_def)


lemma generate_password_16:
  "generate_password e pos 16 =
     (map (\<lambda>i. alphabet ! (entropy e (pos + i) mod length alphabet)) [0 ..< 16], pos + 16)"
  by (simp add: generate_password_def Let_def del: upt_Suc)


lemma hash_password_cases:
  "hash_password e pos password =
     (case argon2id e \<lparr>memory_cost = 65536, time_cost = 3, parallelism = 4, hash_len = 32, salt_len = 16\<rparr>
             (map (\<lambda>i. entropy e (pos + i) mod 256) [0 ..< 16]) password of
        None \<Rightarrow> Inl HashingError
      | Some rest \<Rightarrow> Inr (encoded_prefix @ rest, pos + 16))"
  by (cases "argon2id e \<lparr>memory_cost = 65536, time_cost = 3, parallelism = 4, hash_len = 32, salt_len = 16\<rparr>
             (map (\<lambda>i. entropy e (pos + i) mod 256) [0 ..< 16]) password")
     (simp_all add: hash_password_def Let_def del: upt_Suc)

lemma valid_email_nonempty: "validate_email m \<Longrightarrow> m \<noteq> []"
  by (auto simp: validate_email_iff)

lemma valid_entry_iff:
  "valid_entry row = Some (u, m) \<longleftrightarrow>
     username row = SqlText u \<and> email row = SqlText m \<and> validate_username u \<and> validate_email m"
  by (auto simp: valid_entry_def split: sql_value.splits)

lemma sync_user_entry:
  "valid_entry row = Some (u, m) \<Longrightarrow> sync_user cfg e row st = sync_valid_user cfg e u m st"
  by (simp add: valid_entry_iff sync_user_def)

lemma sync_user_skipped: "skipped row \<Longrightarrow> sync_user cfg e row st = Inr st"
  by (auto simp: skipped_def sync_user_def split: sql_value.splits)

lemma skipped_no_entry: "skipped row \<Longrightarrow> valid_entry row = None"
  by (auto simp: skipped_def valid_entry_def split: sql_value.splits)

lemma sync_user_type_error:
  "valid_entry row = None \<Longrightarrow> \<not> skipped row \<Longrightarrow> sync_user cfg e row st = Inl TypeError"
  by (auto simp: skipped_def valid_entry_def sync_user_def split: sql_value.splits)

lemma sync_valid_user_new:
  assumes "authelia_users st = PRef a" "a < length (heap st)" "heap st ! a = PDict us"
    and "u \<notin> fst ` set us"
  shows "sync_valid_user cfg e u m st =
     (case hash_password e (snd (generate_password e (rng_pos st) 16))
             (fst (generate_password e (rng_pos st) 16)) of
        Inl err \<Rightarrow> Inl err
      | Inr (password_hash, p) \<Rightarrow>
          Inr (st\<lparr>heap := (heap st @ [PList [PStr (default_group cfg)],
                                       new_record u password_hash m (PRef (length (heap st)))])
                             [a := PDict (us @ [(u, PRef (Suc (length (heap st))))])],
                  new_users := new_users st + 1, rng_pos := p\<rparr>))"
  using assms
  by (simp add: sync_valid_user_def py_contains_def py_setitem_def deref_def
        alloc_def update_fresh split_beta nth_append
      split: sum.splits prod.splits)

lemma sync_valid_user_existing:
  assumes "m \<noteq> []"
    and "authelia_users st = PRef a" "a < length (heap st)" "heap st ! a = PDict us"
    and "map_of us u = Some (PRef r)" "r < length (heap st)" "heap st ! r = PDict fs"
  shows "sync_valid_user cfg e u m st =
     Inr (if map_of fs ''email'' = Some (PStr m) then st
          else st\<lparr>heap := (heap st)[r := PDict (AList.update ''email'' (PStr m) fs)],
                  updated_users := updated_users st + 1\<rparr>)"
proof -
  have "u \<in> fst ` set us"
    using assms(5) by (metis map_of_None_iff option.distinct(1))
  then show ?thesis
    using assms
    by (auto simp: sync_valid_user_def py_contains_def py_getitem_def py_get_def
          py_setitem_def deref_def split: option.splits)
qed

lemma sync_user_new:
  assumes "validate_username u" "validate_email m"
    and "authelia_users st = PRef a" "a < length (heap st)" "heap st ! a = PDict us"
    and "u \<notin> fst ` set us"
  shows "sync_user cfg e \<lparr>username = SqlText u, email = SqlText m\<rparr> st =
     (case hash_password e (snd (generate_password e (rng_pos st) 16))
             (fst (generate_password e (rng_pos st) 16)) of
        Inl err \<Rightarrow> Inl err
      | Inr (password_hash, p) \<Rightarrow>
          Inr (st\<lparr>heap := (heap st @ [PList [PStr (default_group cfg)],
                                       new_record u password_hash m (PRef (length (heap st)))])
                             [a := PDict (us @ [(u, PRef (Suc (length (heap st))))])],
                  new_users := new_users st + 1, rng_pos := p\<rparr>))"
  using assms(1,2) sync_valid_user_new [OF assms(3-6)]
  by (simp add: sync_user_def)

lemma sync_user_existing:
  assumes "validate_username u" "validate_email m"
    and "authelia_users st = PRef a" "a < length (heap st)" "heap st ! a = PDict us"
    and "map_of us u = Some (PRef r)" "r < length (heap st)" "heap st ! r = PDict fs"
  shows "sync_user cfg e \<lparr>username = SqlText u, email = SqlText m\<rparr> st =
     Inr (if map_of fs ''email'' = Some (PStr m) then st
          else st\<lparr>heap := (heap st)[r := PDict (AList.update ''email'' (PStr m) fs)],
                  updated_users := updated_users st + 1\<rparr>)"
  using assms(1,2) sync_valid_user_existing [OF valid_email_nonempty [OF assms(2)] assms(3-8)]
  by (simp add: sync_user_def)

subsection \<open>Creating an account\<close>

lemma valid_alice: "validate_username ''alice''" "validate_email ''alice@example.com''"
  by code_simp+

lemma title_alice: "title ''alice'' = ''Alice''"
  by code_simp


lemma dot_not_in_alphabet: "CHR ''.'' \<notin> set alphabet"
  by (simp add: alphabet_def)







subsection \<open>Updating an account\<close>

lemma valid_bob: "validate_username ''bob''" "validate_email ''new@x.com''"
  by code_simp+

text \<open>
  C2: when the users mapping holds a record under the user name of a row that passes
  validation, the step returns. If the email stored in the record is not the email of
  the row, the record object is changed where it is: the key \<open>email\<close> is bound to the
  email of the row and keeps its place, every other key of the record keeps its value,
  and every other object of the heap, among them the list of groups, is what it was;
  one update is counted, and the users mapping (if it is not that record), the creation
  counter and the random source are as before. If the stored email is the email of the
  row, the state after the step is the state before it.
\<close>

theorem sync_updates_email_only:
  assumes "validate_username u" and "validate_email m"
    and "authelia_users st = PRef a" and "a < length (heap st)" and "heap st ! a = PDict us"
    and "map_of us u = Some (PRef r)" and "r < length (heap st)" and "heap st ! r = PDict fs"
  shows "\<exists>st'. sync_user cfg e \<lparr>username = SqlText u, email = SqlText m\<rparr> st = Inr st'
     \<and> (if map_of fs ''email'' = Some (PStr m) then st' = st
         else st' = st\<lparr>heap := (heap st)[r := PDict (AList.update ''email'' (PStr m) fs)],
                        updated_users := updated_users st + 1\<rparr>
           \<and> heap st' ! r = PDict (AList.update ''email'' (PStr m) fs)
           \<and> map_of (AList.update ''email'' (PStr m) fs) ''email'' = Some (PStr m)
           \<and> (\<forall>k. k \<noteq> ''email'' \<longrightarrow>
                  map_of (AList.update ''email'' (PStr m) fs) k = map_of fs k)
           \<and> (''email'' \<in> fst ` set fs \<longrightarrow>
                  map fst (AList.update ''email'' (PStr m) fs) = map fst fs)
           \<and> length (heap st') = length (heap st)
           \<and> (\<forall>b. b \<noteq> r \<longrightarrow> heap st' ! b = heap st ! b)
           \<and> authelia_users st' = authelia_users st
           \<and> updated_users st' = updated_users st + 1
           \<and> new_users st' = new_users st
           \<and> rng_pos st' = rng_pos st)"
proof (cases "map_of fs ''email'' = Some (PStr m)")
  case True
  then show ?thesis
    unfolding sync_user_existing [OF assms] by simp
next
  case False
  have keys: "''email'' \<in> fst ` set fs \<Longrightarrow>
      map fst (AList.update ''email'' (PStr m) fs) = map fst fs"
    by (simp add: update_keys map_idI)
  show ?thesis
    unfolding sync_user_existing [OF assms]
    using False assms(7) keys
    by (simp add: map_of_update_same map_of_update_other)
qed

theorem sync_updates_email_only_witness:
  "sync_user example_config example_env \<lparr>username = SqlText ''bob'', email = SqlText ''new@x.com''\<rparr>
      (start bob_heap (PRef 2)) =
     Inr \<lparr>heap = [PList [PStr ''admins''],
                   PDict [(''displayname'', PStr ''Bob''), (''password'', PStr ''$argon2id$old''),
                          (''email'', PStr ''new@x.com''), (''groups'', PRef 0)],
                   PDict [(''bob'', PRef 1)]],
          authelia_users = PRef 2, new_users = 0, updated_users = 1, rng_pos = 0\<rparr>"
proof -
  let ?st = "start bob_heap (PRef 2)"
  have a: "authelia_users ?st = PRef 2" "2 < length (heap ?st)"
      "heap ?st ! 2 = PDict [(''bob'', PRef 1)]"
      "map_of [(''bob'', PRef 1)] ''bob'' = Some (PRef 1)" "1 < length (heap ?st)"
      "heap ?st ! 1 = PDict bob_record"
    by (simp_all add: start_def bob_heap_def)
  from sync_updates_email_only [OF valid_bob a, of example_config example_env]
  obtain st' where
    "sync_user example_config example_env \<lparr>username = SqlText ''bob'', email = SqlText ''new@x.com''\<rparr>
       ?st = Inr st'"
    "if map_of bob_record ''email'' = Some (PStr ''new@x.com'') then st' = ?st
     else st' = ?st\<lparr>heap := (heap ?st)[1 := PDict (AList.update ''email'' (PStr ''new@x.com'') bob_record)],
                        updated_users := updated_users ?st + 1\<rparr>"
    by (auto split: if_splits)
  then show ?thesis
    by (simp add: bob_record_def start_def bob_heap_def)
qed

text \<open>
  C8: a record without an \<open>email\<close> field has the empty string as its current email; a
  valid source email differs from it, so the step succeeds, adds the field with the
  source email after the record's other fields, where the record stands, and counts
  one update.
\<close>

theorem sync_adds_missing_email:
  assumes "validate_username u" and "validate_email m"
    and "authelia_users st = PRef a" and "a < length (heap st)" and "heap st ! a = PDict us"
    and "map_of us u = Some (PRef r)" and "r < length (heap st)" and "heap st ! r = PDict fs"
    and "''email'' \<notin> fst ` set fs"
  shows "py_get (heap st) (PRef r) ''email'' (PStr []) = Inr (PStr [])
     \<and> PStr [] \<noteq> PStr m
     \<and> sync_user cfg e \<lparr>username = SqlText u, email = SqlText m\<rparr> st =
         Inr (st\<lparr>heap := (heap st)[r := PDict (fs @ [(''email'', PStr m)])],
                 updated_users := updated_users st + 1\<rparr>)"
proof -
  have none: "map_of fs ''email'' = None"
    using assms(9) by (simp add: map_of_None_iff)
  have "m \<noteq> []" using assms(2) by (rule valid_email_nonempty)
  then show ?thesis
    unfolding sync_user_existing [OF assms(1-8)]
    using none assms(7,8,9) by (simp add: update_fresh py_get_def deref_def)
qed

theorem sync_adds_missing_email_witness:
  "sync_user example_config example_env \<lparr>username = SqlText ''bob'', email = SqlText ''new@x.com''\<rparr>
      (start [PList [PStr ''admins''], PDict bob_without_email, PDict [(''bob'', PRef 1)]] (PRef 2)) =
     Inr \<lparr>heap = [PList [PStr ''admins''],
                   PDict [(''displayname'', PStr ''Bob''), (''password'', PStr ''$argon2id$old''),
                          (''groups'', PRef 0), (''email'', PStr ''new@x.com'')],
                   PDict [(''bob'', PRef 1)]],
          authelia_users = PRef 2, new_users = 0, updated_users = 1, rng_pos = 0\<rparr>"
proof -
  let ?st = "start [PList [PStr ''admins''], PDict bob_without_email, PDict [(''bob'', PRef 1)]] (PRef 2)"
  have a: "authelia_users ?st = PRef 2" "2 < length (heap ?st)"
      "heap ?st ! 2 = PDict [(''bob'', PRef 1)]"
      "map_of [(''bob'', PRef 1)] ''bob'' = Some (PRef 1)" "1 < length (heap ?st)"
      "heap ?st ! 1 = PDict bob_without_email"
    by (simp_all add: start_def)
  have c: "''email'' \<notin> fst ` set bob_without_email"
    by (simp add: bob_without_email_def)
  show ?thesis
    using sync_adds_missing_email [OF valid_bob a c, of example_config example_env]
    by (simp add: bob_without_email_def start_def)
qed

subsection \<open>One pass\<close>

lemma sync_loop_append:
  "sync_loop cfg e (xs @ ys) st =
     (case sync_loop cfg e xs st of Inl err \<Rightarrow> Inl err | Inr st' \<Rightarrow> sync_loop cfg e ys st')"
  by (induction xs arbitrary: st) (auto split: sum.splits)

lemma sync_user_hashing_error:
  assumes "username row = SqlText u" and "email row = SqlText m"
    and "validate_username u" and "validate_email m"
    and "py_contains (heap st) u (authelia_users st) = Inr False"
    and "hash_password e (snd (generate_password e (rng_pos st) 16))
           (fst (generate_password e (rng_pos st) 16)) = Inl HashingError"
  shows "sync_user cfg e row st = Inl HashingError"
  using assms by (simp add: sync_user_def sync_valid_user_def split_beta)

lemma sync_users_unfold:
  assumes "load_authelia_users w = (h, authelia_data)"
  shows "sync_users cfg e w =
     (case py_get (h @ [PDict []]) authelia_data ''users'' (PRef (length h)) of
        Inl err \<Rightarrow> (Some err, w)
      | Inr users \<Rightarrow>
          if get_wizarr_users w = [] then (None, w)
          else (case sync_loop cfg e (get_wizarr_users w) (start (h @ [PDict []]) users) of
                  Inl err \<Rightarrow> (Some err, w)
                | Inr st \<Rightarrow>
                    if new_users st > 0 \<or> updated_users st > 0 then
                      (case py_setitem (heap st) authelia_data ''users'' (authelia_users st) of
                         Inl err \<Rightarrow> (Some err, w)
                       | Inr h'' \<Rightarrow>
                           (None, snd (restart_authelia_container cfg
                                         (save_authelia_users cfg h'' authelia_data w))))
                    else (None, w)))"
  using assms by (simp add: sync_users_def Let_def alloc_def)

lemma sync_users_error:
  assumes "load_authelia_users w = (h, authelia_data)"
    and "py_get (h @ [PDict []]) authelia_data ''users'' (PRef (length h)) = Inr users"
    and "get_wizarr_users w \<noteq> []"
    and "sync_loop cfg e (get_wizarr_users w) (start (h @ [PDict []]) users) = Inl err"
  shows "sync_users cfg e w = (Some err, w)"
  using assms(2-4) unfolding sync_users_unfold [OF assms(1)] by simp

text \<open>
  C5: when hashing the password of a new user raises, after the rows before it were
  processed without error, the pass ends with that error and the world is the one the
  pass started in: the users file holds what it held, nothing was written and no
  restart was asked for; the single run of \<open>main\<close> exits with status 1.
\<close>

theorem hashing_error_aborts_pass:
  assumes "get_wizarr_users w = before @ row # after"
    and "load_authelia_users w = (h, authelia_data)"
    and "py_get (h @ [PDict []]) authelia_data ''users'' (PRef (length h)) = Inr users"
    and "sync_loop cfg e before (start (h @ [PDict []]) users) = Inr st"
    and "username row = SqlText u" and "email row = SqlText m"
    and "validate_username u" and "validate_email m"
    and "py_contains (heap st) u (authelia_users st) = Inr False"
    and "hash_password e (snd (generate_password e (rng_pos st) 16))
           (fst (generate_password e (rng_pos st) 16)) = Inl HashingError"
  shows "sync_users cfg e w = (Some HashingError, w)
     \<and> authelia_file (snd (sync_users cfg e w)) = authelia_file w
     \<and> events (snd (sync_users cfg e w)) = events w
     \<and> main_once cfg e w = (1, w)"
proof -
  have "sync_user cfg e row st = Inl HashingError"
    using assms(5-10) by (rule sync_user_hashing_error)
  then have "sync_loop cfg e (get_wizarr_users w) (start (h @ [PDict []]) users) = Inl HashingError"
    using assms(1,4) by (simp add: sync_loop_append)
  moreover have "get_wizarr_users w \<noteq> []"
    using assms(1) by simp
  ultimately have "sync_users cfg e w = (Some HashingError, w)"
    using assms(2,3) by (simp add: sync_users_error)
  then show ?thesis
    by (simp add: main_once_def)
qed

lemma valid_carol: "validate_username ''carol''" "validate_email ''carol@example.com''"
  by code_simp+

lemma title_carol: "title ''carol'' = ''Carol''"
  by code_simp

lemma failing_password_1: "generate_password failing_env 0 16 = (''aaaaaaaaaaaaaaaa'', 16)"
  by (simp add: generate_password_16 failing_env_def alphabet_def upt_rec)

lemma failing_hash_1:
  "hash_password failing_env 16 ''aaaaaaaaaaaaaaaa'' =
     Inr (''$argon2id$v=19$m=65536,t=3,p=4$c2FsdA$aGFzaA'', 32)"
  unfolding hash_password_cases
  by (simp add: failing_env_def example_digest_def encoded_prefix_def del: upt_Suc)

lemma failing_password_2: "generate_password failing_env 32 16 = (''bbbbbbbbbbbbbbbb'', 48)"
  by (simp add: generate_password_16 failing_env_def alphabet_def upt_rec)

lemma failing_hash_2:
  "hash_password failing_env 48 ''bbbbbbbbbbbbbbbb'' = Inl HashingError"
  unfolding hash_password_cases
  by (simp add: failing_env_def del: upt_Suc)

lemma load_missing: "load_authelia_users two_user_world = ([PDict [], PDict [(''users'', PRef 0)]], PRef 1)"
  by (simp add: load_authelia_users_def two_user_world_def empty_store_def alloc_def)

lemma failing_first_user:
  "sync_loop example_config failing_env [alice]
      (start ([PDict [], PDict [(''users'', PRef 0)]] @ [PDict []]) (PRef 0)) =
     Inr \<lparr>heap = [PDict [(''alice'', PRef 4)], PDict [(''users'', PRef 0)], PDict [],
                   PList [PStr ''plex_users''],
                   PDict [(''displayname'', PStr ''Alice''),
                          (''password'', PStr ''$argon2id$v=19$m=65536,t=3,p=4$c2FsdA$aGFzaA''),
                          (''email'', PStr ''alice@example.com''),
                          (''groups'', PRef 3)]],
          authelia_users = PRef 0, new_users = 1, updated_users = 0, rng_pos = 32\<rparr>"
proof -
  let ?st = "start ([PDict [], PDict [(''users'', PRef 0)]] @ [PDict []]) (PRef 0)"
  have a: "authelia_users ?st = PRef 0" "0 < length (heap ?st)" "heap ?st ! 0 = PDict []"
      "''alice'' \<notin> fst ` set ([] :: (string \<times> pyval) list)"
    by (simp_all add: start_def)
  have p: "rng_pos ?st = 0"
    by (simp add: start_def)
  show ?thesis
    unfolding alice_def sync_loop.simps sync_user_new [OF valid_alice a] p failing_password_1
      fst_conv snd_conv failing_hash_1
    by (simp add: start_def new_record_def title_alice example_config_def)
qed

theorem hashing_error_aborts_pass_witness:
  "sync_users example_config failing_env two_user_world = (Some HashingError, two_user_world)
   \<and> authelia_file (snd (sync_users example_config failing_env two_user_world)) = FileMissing
   \<and> events (snd (sync_users example_config failing_env two_user_world)) = []
   \<and> main_once example_config failing_env two_user_world = (1, two_user_world)"
proof -
  let ?st = "\<lparr>heap = [PDict [(''alice'', PRef 4)], PDict [(''users'', PRef 0)], PDict [],
                   PList [PStr ''plex_users''],
                   PDict [(''displayname'', PStr ''Alice''),
                          (''password'', PStr ''$argon2id$v=19$m=65536,t=3,p=4$c2FsdA$aGFzaA''),
                          (''email'', PStr ''alice@example.com''),
                          (''groups'', PRef 3)]],
          authelia_users = PRef 0, new_users = 1, updated_users = 0, rng_pos = 32\<rparr>"
  have 1: "get_wizarr_users two_user_world = [alice] @ carol # []"
    by (simp add: get_wizarr_users_def two_user_world_def alice_def carol_def)
  have 3: "py_get ([PDict [], PDict [(''users'', PRef 0)]] @ [PDict []]) (PRef 1) ''users''
             (PRef (length [PDict [], PDict [(''users'', PRef 0)]])) = Inr (PRef 0)"
    by (simp add: py_get_def deref_def)
  have 5: "username carol = SqlText ''carol''" and 6: "email carol = SqlText ''carol@example.com''"
    by (simp_all add: carol_def)
  have 9: "py_contains (heap ?st) ''carol'' (authelia_users ?st) = Inr False"
    by (simp add: py_contains_def deref_def)
  have 10: "hash_password failing_env (snd (generate_password failing_env (rng_pos ?st) 16))
           (fst (generate_password failing_env (rng_pos ?st) 16)) = Inl HashingError"
    by (simp add: failing_password_2 failing_hash_2)
  show ?thesis
    using hashing_error_aborts_pass [OF 1 load_missing 3 failing_first_user 5 6 valid_carol 9 10]
    by (simp add: two_user_world_def)
qed

subsection \<open>A pass with no source users\<close>

lemma get_wizarr_users_empty_iff:
  "get_wizarr_users w = [] \<longleftrightarrow>
     wizarr_db w = DbMissing \<or> wizarr_db w = DbUnreadable
     \<or> (\<exists>rows. wizarr_db w = DbRows rows \<and> (\<forall>row\<in>set rows. email row = SqlNull))"
  by (auto simp: get_wizarr_users_def filter_empty_conv split: db_state.splits)

lemma empty_store_eq: "empty_store = ([PDict [], PDict [(''users'', PRef 0)]], PRef 1)"
  by (simp add: empty_store_def alloc_def)

lemma load_authelia_users_cases:
  "load_authelia_users w = empty_store
   \<or> (\<exists>h data. authelia_file w = FileData h data \<and> truthy h data \<and> load_authelia_users w = (h, data))"
  by (auto simp: load_authelia_users_def split: file_state.splits)

text \<open>
  C10, as stated, fails: with the Wizarr database missing and a users file whose
  document is a list, the source yields no users, yet the pass raises
  \<^verbatim>\<open>AttributeError\<close> at \<^verbatim>\<open>authelia_data.get\<close>, which stands before the test for
  an empty source, and the single run exits with status 1.
\<close>

theorem empty_source_list_document_counterexample:
  "get_wizarr_users list_document_world = []
   \<and> sync_users example_config example_env list_document_world =
       (Some AttributeError, list_document_world)
   \<and> main_once example_config example_env list_document_world = (1, list_document_world)"
  by (simp add: get_wizarr_users_def load_authelia_users_def sync_users_def main_once_def
        list_document_world_def truthy_def deref_def py_get_def alloc_def)

text \<open>
  C10, amended: when the source yields no users, the world after the pass is the world
  before it (the users file is not written, no restart is asked for, the target is
  unchanged); and when the loaded target document is a mapping, the pass returns
  without an error before reconciling and the single run exits with status 0.
\<close>

theorem empty_source_skips_pass:
  assumes "get_wizarr_users w = []"
  shows "snd (sync_users cfg e w) = w
     \<and> (\<forall>h d doc. load_authelia_users w = (h, d) \<longrightarrow> deref h d = Some (PDict doc) \<longrightarrow>
           sync_users cfg e w = (None, w) \<and> main_once cfg e w = (0, w))"
proof -
  obtain h d where l: "load_authelia_users w = (h, d)"
    by (cases "load_authelia_users w")
  have 1: "snd (sync_users cfg e w) = w"
    unfolding sync_users_unfold [OF l] using assms by (simp split: sum.splits)
  have 2: "sync_users cfg e w = (None, w) \<and> main_once cfg e w = (0, w)"
    if "deref h d = Some (PDict doc)" for doc
  proof -
    from that obtain a where "d = PRef a" "a < length h" "h ! a = PDict doc"
      by (auto simp: deref_Some_iff)
    then have "sync_users cfg e w = (None, w)"
      unfolding sync_users_unfold [OF l] using assms
      by (simp add: py_get_def deref_def nth_append)
    then show ?thesis by (simp add: main_once_def)
  qed
  show ?thesis
    using 1 2 l by auto
qed

theorem empty_source_skips_pass_witness:
  "get_wizarr_users (example_world\<lparr>wizarr_db := DbMissing\<rparr>) = []
   \<and> snd (sync_users example_config example_env (example_world\<lparr>wizarr_db := DbMissing\<rparr>)) =
       example_world\<lparr>wizarr_db := DbMissing\<rparr>
   \<and> sync_users example_config example_env (example_world\<lparr>wizarr_db := DbMissing\<rparr>) =
       (None, example_world\<lparr>wizarr_db := DbMissing\<rparr>)
   \<and> main_once example_config example_env (example_world\<lparr>wizarr_db := DbMissing\<rparr>) =
       (0, example_world\<lparr>wizarr_db := DbMissing\<rparr>)"
proof -
  have a: "get_wizarr_users (example_world\<lparr>wizarr_db := DbMissing\<rparr>) = []"
    by (simp add: get_wizarr_users_def)
  have b: "load_authelia_users (example_world\<lparr>wizarr_db := DbMissing\<rparr>) = (versioned_heap, PRef 3)"
    by (simp add: load_authelia_users_def example_world_def truthy_def deref_def
          versioned_heap_def bob_heap_def)
  have c: "deref versioned_heap (PRef 3) = Some (PDict [(''users'', PRef 2), (''version'', PInt 1)])"
    by (simp add: deref_def versioned_heap_def bob_heap_def)
  show ?thesis
    using empty_source_skips_pass [OF a, of example_config example_env] a b c by simp
qed

subsection \<open>What a step that returns has done\<close>

lemma sync_valid_user_Inr_dict:
  assumes "sync_valid_user cfg e u m st = Inr st'"
  shows "\<exists>a us. authelia_users st = PRef a \<and> a < length (heap st) \<and> heap st ! a = PDict us"
proof (cases "authelia_users st")
  case (PRef a)
  show ?thesis
  proof (cases "a < length (heap st)")
    case False
    then show ?thesis
      using assms PRef by (simp add: sync_valid_user_def py_contains_def deref_def)
  next
    case True
    show ?thesis
    proof (cases "heap st ! a")
      case (PDict us)
      then show ?thesis using PRef True by simp
    next
      case (PList xs)
      then show ?thesis
        using assms PRef True
        by (auto simp: sync_valid_user_def py_contains_def py_getitem_def py_setitem_def
              deref_def alloc_def split_beta Let_def nth_append
            split: sum.splits if_splits bool.splits)
    qed
  qed
next
  case (PStr s)
  then show ?thesis
    using assms
    by (auto simp: sync_valid_user_def py_contains_def py_getitem_def py_setitem_def
          deref_def alloc_def split_beta Let_def split: sum.splits if_splits bool.splits)
qed (use assms in \<open>simp_all add: sync_valid_user_def py_contains_def\<close>)

lemma sync_valid_user_Inr_record:
  assumes "sync_valid_user cfg e u m st = Inr st'"
    and "authelia_users st = PRef a" "a < length (heap st)" "heap st ! a = PDict us"
    and "map_of us u = Some x"
  shows "\<exists>r fs. x = PRef r \<and> r < length (heap st) \<and> heap st ! r = PDict fs"
proof -
  have "u \<in> fst ` set us"
    using assms(5) by (metis map_of_None_iff option.distinct(1))
  then have "\<exists>fs. deref (heap st) x = Some (PDict fs)"
    using assms
    by (auto simp: sync_valid_user_def py_contains_def py_getitem_def py_get_def deref_def
          split: option.splits pyobj.splits pyval.splits if_splits)
  then show ?thesis
    by (auto simp: deref_Some_iff)
qed

lemma sync_valid_user_InrE:
  assumes "sync_valid_user cfg e u m st = Inr st'" and "m \<noteq> []"
  obtains (kept) a us r fs where
      "authelia_users st = PRef a" "a < length (heap st)" "heap st ! a = PDict us"
      "map_of us u = Some (PRef r)" "r < length (heap st)" "heap st ! r = PDict fs"
      "map_of fs ''email'' = Some (PStr m)" "st' = st"
  | (updated) a us r fs where
      "authelia_users st = PRef a" "a < length (heap st)" "heap st ! a = PDict us"
      "map_of us u = Some (PRef r)" "r < length (heap st)" "heap st ! r = PDict fs"
      "map_of fs ''email'' \<noteq> Some (PStr m)"
      "st' = st\<lparr>heap := (heap st)[r := PDict (AList.update ''email'' (PStr m) fs)],
                updated_users := updated_users st + 1\<rparr>"
  | (new) a us password_hash p where
      "authelia_users st = PRef a" "a < length (heap st)" "heap st ! a = PDict us"
      "u \<notin> fst ` set us"
      "hash_password e (snd (generate_password e (rng_pos st) 16))
         (fst (generate_password e (rng_pos st) 16)) = Inr (password_hash, p)"
      "st' = st\<lparr>heap := (heap st @ [PList [PStr (default_group cfg)],
                                     new_record u password_hash m (PRef (length (heap st)))])
                           [a := PDict (us @ [(u, PRef (Suc (length (heap st))))])],
                new_users := new_users st + 1, rng_pos := p\<rparr>"
proof -
  from sync_valid_user_Inr_dict [OF assms(1)] obtain a us where
    d: "authelia_users st = PRef a" "a < length (heap st)" "heap st ! a = PDict us"
    by blast
  show thesis
  proof (cases "map_of us u")
    case None
    then have fresh: "u \<notin> fst ` set us"
      by (simp add: map_of_None_iff)
    from assms(1) obtain password_hash p where
      "hash_password e (snd (generate_password e (rng_pos st) 16))
         (fst (generate_password e (rng_pos st) 16)) = Inr (password_hash, p)"
      "st' = st\<lparr>heap := (heap st @ [PList [PStr (default_group cfg)],
                                     new_record u password_hash m (PRef (length (heap st)))])
                           [a := PDict (us @ [(u, PRef (Suc (length (heap st))))])],
                new_users := new_users st + 1, rng_pos := p\<rparr>"
      unfolding sync_valid_user_new [OF d fresh]
      by (auto split: sum.splits)
    then show thesis
      using d fresh by (rule new [rotated 4])
  next
    case (Some x)
    from sync_valid_user_Inr_record [OF assms(1) d Some] obtain r fs where
      r: "x = PRef r" "r < length (heap st)" "heap st ! r = PDict fs"
      by blast
    note ex = sync_valid_user_existing [OF assms(2) d Some [unfolded r(1)] r(2,3), of cfg e]
    show thesis
    proof (cases "map_of fs ''email'' = Some (PStr m)")
      case True
      then have "st' = st" using assms(1) unfolding ex by simp
      then show thesis
        using d Some r True by (intro kept [of a us r fs]) simp_all
    next
      case False
      then have "st' = st\<lparr>heap := (heap st)[r := PDict (AList.update ''email'' (PStr m) fs)],
                updated_users := updated_users st + 1\<rparr>"
        using assms(1) unfolding ex by simp
      then show thesis
        using d Some r False by (intro updated [of a us r fs]) simp_all
    qed
  qed
qed

lemma users_lookup_eq:
  "authelia_users st = PRef a \<Longrightarrow> a < length (heap st) \<Longrightarrow> heap st ! a = PDict us \<Longrightarrow>
     users_lookup st k = map_of us k"
  by (simp add: users_lookup_def deref_def)

text \<open>
  A step leaves the variable \<open>authelia_users\<close> and the length of the heap or makes the
  heap longer; an object it changes is the users mapping or what stands under the user
  name of the row; and a reference to an object of the heap before the step, found
  under a user name after it, was there under that name before.
\<close>

lemma sync_valid_user_frame:
  assumes "sync_valid_user cfg e u m st = Inr st'" and "m \<noteq> []"
  shows "authelia_users st' = authelia_users st"
    and "length (heap st) \<le> length (heap st')"
    and "b < length (heap st) \<Longrightarrow> heap st' ! b \<noteq> heap st ! b \<Longrightarrow>
           authelia_users st = PRef b \<or> users_lookup st u = Some (PRef b)"
    and "b < length (heap st) \<Longrightarrow> users_lookup st' k = Some (PRef b) \<Longrightarrow>
           users_lookup st k = Some (PRef b)"
proof -
  show "authelia_users st' = authelia_users st"
    using assms by (cases rule: sync_valid_user_InrE) simp_all
  show "length (heap st) \<le> length (heap st')"
    using assms by (cases rule: sync_valid_user_InrE) simp_all
  show "authelia_users st = PRef b \<or> users_lookup st u = Some (PRef b)"
    if "b < length (heap st)" "heap st' ! b \<noteq> heap st ! b"
    using assms
  proof (cases rule: sync_valid_user_InrE)
    case (kept a us r fs)
    then show ?thesis using that by simp
  next
    case (updated a us r fs)
    then have "b = r" using that by (cases "b = r") simp_all
    then show ?thesis
      using updated by (simp add: users_lookup_eq)
  next
    case (new a us password_hash p)
    then have "b = a" using that by (cases "b = a") (simp_all add: nth_append)
    then show ?thesis using new by simp
  qed
  show "users_lookup st k = Some (PRef b)"
    if "b < length (heap st)" "users_lookup st' k = Some (PRef b)"
    using assms
  proof (cases rule: sync_valid_user_InrE)
    case (kept a us r fs)
    then show ?thesis using that by simp
  next
    case (updated a us r fs)
    show ?thesis
    proof (cases "r = a")
      case True
      then have fs: "fs = us" using updated by simp
      have "users_lookup st' k = map_of (AList.update ''email'' (PStr m) us) k"
        using updated True fs by (simp add: users_lookup_def deref_def)
      then have "k \<noteq> ''email''"
        using that(2) by (auto simp: map_of_update_same)
      then have "users_lookup st' k = map_of us k"
        using \<open>users_lookup st' k = map_of (AList.update ''email'' (PStr m) us) k\<close>
        by (simp add: map_of_update_other)
      then show ?thesis
        using that(2) updated by (simp add: users_lookup_eq)
    next
      case False
      then have "users_lookup st' k = users_lookup st k"
        using updated by (simp add: users_lookup_def deref_def)
      then show ?thesis using that by simp
    qed
  next
    case (new a us password_hash p)
    have l: "users_lookup st' k = map_of (us @ [(u, PRef (Suc (length (heap st))))]) k"
      using new by (simp add: users_lookup_def deref_def)
    have "k \<noteq> u"
    proof
      assume "k = u"
      then have "users_lookup st' k = Some (PRef (Suc (length (heap st))))"
        using l map_of_snoc_fresh [OF new(4), of "PRef (Suc (length (heap st)))"] by simp
      then show False using that by simp
    qed
    then have "users_lookup st' k = map_of us k"
      using l map_of_snoc_other [of k u us "PRef (Suc (length (heap st)))"] by simp
    then show ?thesis
      using that(2) new by (simp add: users_lookup_eq)
  qed
qed

lemma sync_user_frame:
  assumes "sync_user cfg e row st = Inr st'"
  shows "authelia_users st' = authelia_users st"
    and "length (heap st) \<le> length (heap st')"
    and "b < length (heap st) \<Longrightarrow> heap st' ! b \<noteq> heap st ! b \<Longrightarrow> may_change [row] st b"
    and "b < length (heap st) \<Longrightarrow> users_lookup st' k = Some (PRef b) \<Longrightarrow>
           users_lookup st k = Some (PRef b)"
proof -
  consider (valid) u m where "valid_entry row = Some (u, m)"
    | (skip) "valid_entry row = None" "skipped row"
    | (err) "valid_entry row = None" "\<not> skipped row"
    by (cases "valid_entry row") auto
  then have "authelia_users st' = authelia_users st \<and> length (heap st) \<le> length (heap st')
    \<and> (b < length (heap st) \<longrightarrow> heap st' ! b \<noteq> heap st ! b \<longrightarrow> may_change [row] st b)
    \<and> (b < length (heap st) \<longrightarrow> users_lookup st' k = Some (PRef b) \<longrightarrow>
           users_lookup st k = Some (PRef b))"
  proof cases
    case valid
    have s: "sync_valid_user cfg e u m st = Inr st'"
      using assms unfolding sync_user_entry [OF valid] .
    have m: "m \<noteq> []"
      using valid by (simp add: valid_entry_iff valid_email_nonempty)
    note f = sync_valid_user_frame [OF s m]
    have "may_change [row] st b" if "authelia_users st = PRef b \<or> users_lookup st u = Some (PRef b)"
      using that valid by (auto simp: may_change_def)
    then show ?thesis
      using f(1) f(2) f(3) [of b] f(4) [of b k] by blast
  next
    case skip
    then show ?thesis using assms by (simp add: sync_user_skipped)
  next
    case err
    then show ?thesis using assms by (simp add: sync_user_type_error)
  qed
  then show "authelia_users st' = authelia_users st"
    and "length (heap st) \<le> length (heap st')"
    and "b < length (heap st) \<Longrightarrow> heap st' ! b \<noteq> heap st ! b \<Longrightarrow> may_change [row] st b"
    and "b < length (heap st) \<Longrightarrow> users_lookup st' k = Some (PRef b) \<Longrightarrow>
           users_lookup st k = Some (PRef b)"
    by blast+
qed

lemma may_change_Cons:
  "may_change (row # rows) st b \<longleftrightarrow> may_change [row] st b \<or> may_change rows st b"
  by (auto simp: may_change_def)

lemma may_change_step:
  assumes "sync_user cfg e row st = Inr st2" and "b < length (heap st)"
    and "may_change rows st2 b"
  shows "may_change rows st b"
proof -
  note f = sync_user_frame [OF assms(1)]
  from assms(3) consider "authelia_users st2 = PRef b"
    | row' u m where "row' \<in> set rows" "valid_entry row' = Some (u, m)"
        "users_lookup st2 u = Some (PRef b)"
    unfolding may_change_def by blast
  then show ?thesis
  proof cases
    case 1
    then show ?thesis using f(1) by (simp add: may_change_def)
  next
    case 2
    from f(4) [OF assms(2) 2(3)] have "users_lookup st u = Some (PRef b)" .
    then show ?thesis using 2(1,2) unfolding may_change_def by blast
  qed
qed

end
